theory Spec2Isabelle
  imports Main
begin

section \<open>Data model of package breaker\<close>

text \<open>
  The enumeration \<open>State\<close> in the order of its \<open>iota\<close> constants: \<open>StateHalfOpen\<close> is 0
  and therefore the value of the \<open>state\<close> field of a zero-initialised breaker.
\<close>

datatype State = StateHalfOpen | StateOpen | StateClosed

text \<open>
  The two sentinel errors of the package, and the errors of the wrapped operation, which
  the breaker never inspects beyond the test against nil. A nil error is \<open>None\<close>.
\<close>

datatype error = ErrTooManyRequests | ErrOpenState | OperationError string

text \<open>
  The counters are Go \<open>int\<close>s, of 64 bits on the usual platforms, and \<open>++\<close> on a Go
  \<open>int\<close> wraps around: \<open>wrap_int\<close> brings an integer back into the range from
  \<open>- 2^63\<close> (9223372036854775808) to \<open>2^63 - 1\<close>, modulo \<open>2^64\<close>.
  The request counter goes up at every admission check, rejected ones included, and is
  then compared with the maximum, so its \<open>++\<close> is written with the wrap-around. The
  outcome counters and the generation are taken as mathematical integers: what is stated
  about them below is an increment by one, a reset to 0 or an equality.
\<close>

definition wrap_int :: "int \<Rightarrow> int" where
  "wrap_int x = (x + 9223372036854775808) mod 18446744073709551616 - 9223372036854775808"

record Counts =
  Requests :: int
  TotalSuccess :: int
  TotalFail :: int
  ConsecutiveSuccess :: int
  ConsecutiveFail :: int

text \<open>
  \<open>time.Duration\<close> is a number of nanoseconds. \<open>time.Time\<close> is taken as the number of
  nanoseconds since the instant of the zero value \<open>time.Time{}\<close>, so that the zero value
  is 0, \<open>t.Add(d)\<close> is \<open>t + d\<close> and \<open>t.Before(u)\<close> is \<open>t < u\<close>. Every call of \<open>time.Now()\<close> in
  the source is an argument of the function that makes it.
\<close>

type_synonym Duration = int
type_synonym Time = int

definition Second :: Duration where
  "Second = 1000000000"

definition zero_time :: Time where
  "zero_time = 0"

definition time_Add :: "Time \<Rightarrow> Duration \<Rightarrow> Time" where
  "time_Add t d = t + d"

definition time_Before :: "Time \<Rightarrow> Time \<Rightarrow> bool" where
  "time_Before t u \<longleftrightarrow> t < u"

text \<open>\<open>Settings.ReadyToTrip\<close> is a function value that may be nil (\<open>None\<close>).\<close>

record Settings =
  Timeout :: Duration
  MaxRequests :: int
  ReadyToTrip :: "(Counts \<Rightarrow> bool) option"

text \<open>
  The breaker without its mutex: \<open>beforeRequest\<close> and \<open>afterRequest\<close> hold the lock for
  their whole body, so each of them is one atomic step on this record.
  The constructor always stores a non-nil predicate, so the field is a total function.
\<close>

record CircuitBreaker =
  timeout :: Duration
  maxRequests :: int
  readyToTrip :: "Counts \<Rightarrow> bool"
  state :: State
  generation :: int
  counts :: Counts
  expiry :: Time

section \<open>Counts\<close>

definition Counts_onRequest :: "Counts \<Rightarrow> Counts" where
  "Counts_onRequest c = c\<lparr>Requests := wrap_int (Requests c + 1)\<rparr>"

definition Counts_onSuccess :: "Counts \<Rightarrow> Counts" where
  "Counts_onSuccess c =
     c\<lparr>ConsecutiveSuccess := ConsecutiveSuccess c + 1,
       TotalSuccess := TotalSuccess c + 1,
       ConsecutiveFail := 0\<rparr>"

definition Counts_onFail :: "Counts \<Rightarrow> Counts" where
  "Counts_onFail c =
     c\<lparr>ConsecutiveFail := ConsecutiveFail c + 1,
       TotalFail := TotalFail c + 1,
       ConsecutiveSuccess := 0\<rparr>"

definition Counts_clear :: "Counts \<Rightarrow> Counts" where
  "Counts_clear c =
     c\<lparr>Requests := 0, TotalSuccess := 0, TotalFail := 0,
       ConsecutiveSuccess := 0, ConsecutiveFail := 0\<rparr>"

definition zero_Counts :: Counts where
  "zero_Counts =
     \<lparr>Requests = 0, TotalSuccess = 0, TotalFail = 0,
      ConsecutiveSuccess = 0, ConsecutiveFail = 0\<rparr>"

section \<open>Construction\<close>

definition defaultTimeOut :: Duration where
  "defaultTimeOut = 60 * Second"

definition defaultMaxRequests :: int where
  "defaultMaxRequests = 5"

definition defaultReadyToTrip :: "Counts \<Rightarrow> bool" where
  "defaultReadyToTrip c \<longleftrightarrow> ConsecutiveFail c \<ge> 5"

definition refresh :: "CircuitBreaker \<Rightarrow> Time \<Rightarrow> CircuitBreaker" where
  "refresh cb t =
     (let cb1 = cb\<lparr>generation := generation cb + 1\<rparr>;
          cb2 = cb1\<lparr>counts := Counts_clear (counts cb1)\<rparr>
      in case state cb2 of
           StateClosed \<Rightarrow> cb2\<lparr>expiry := time_Add t (timeout cb2)\<rparr>
         | _ \<Rightarrow> cb2\<lparr>expiry := zero_time\<rparr>)"

text \<open>
  \<open>NewCircuitBreaker\<close>, with the reading of the clock as \<open>now\<close>. The record is built with
  the three configured fields as the three conditionals of the source compute them (the
  second one tests \<open>Timeout\<close>, as the source does) and with the zero values of
  \<open>new(CircuitBreaker)\<close> in the other fields; then come \<open>refresh\<close> and the two assignments.
\<close>

definition NewCircuitBreaker :: "Settings \<Rightarrow> Time \<Rightarrow> CircuitBreaker" where
  "NewCircuitBreaker setings now =
     (let cb = \<lparr>timeout = (if Timeout setings \<le> 0 then defaultTimeOut else Timeout setings),
                maxRequests =
                  (if Timeout setings \<le> 0 then defaultMaxRequests else MaxRequests setings),
                readyToTrip =
                  (case ReadyToTrip setings of
                     None \<Rightarrow> defaultReadyToTrip
                   | Some f \<Rightarrow> f),
                state = StateHalfOpen,
                generation = 0,
                counts = zero_Counts,
                expiry = zero_time\<rparr>;
          cb1 = refresh cb now;
          cb2 = cb1\<lparr>state := StateClosed\<rparr>
      in cb2\<lparr>generation := 0\<rparr>)"

section \<open>Transitions\<close>

definition newGeneration :: "CircuitBreaker \<Rightarrow> Time \<Rightarrow> CircuitBreaker" where
  "newGeneration cb t =
     (let cb1 = cb\<lparr>counts := Counts_clear (counts cb)\<rparr>;
          cb2 = cb1\<lparr>generation := generation cb1 + 1\<rparr>
      in if state cb2 = StateOpen
         then cb2\<lparr>expiry := time_Add t (timeout cb2)\<rparr>
         else cb2\<lparr>expiry := zero_time\<rparr>)"

definition setState :: "CircuitBreaker \<Rightarrow> State \<Rightarrow> Time \<Rightarrow> CircuitBreaker" where
  "setState cb s t =
     (if s = state cb then cb else newGeneration (cb\<lparr>state := s\<rparr>) t)"

text \<open>
  \<open>currentState\<close> reads the clock itself for the transition it makes: \<open>t\<close> is its
  argument and \<open>now'\<close> that second reading.
\<close>

definition currentState :: "CircuitBreaker \<Rightarrow> Time \<Rightarrow> Time \<Rightarrow> CircuitBreaker \<times> State \<times> int" where
  "currentState cb t now' =
     (let cb1 = (if state cb = StateClosed \<and> time_Before (expiry cb) t
                 then setState cb StateHalfOpen now' else cb)
      in (cb1, state cb1, generation cb1))"

definition onSuccess :: "CircuitBreaker \<Rightarrow> State \<Rightarrow> Time \<Rightarrow> CircuitBreaker" where
  "onSuccess cb currState t =
     (case currState of
        StateClosed \<Rightarrow>
          (let cb1 = cb\<lparr>counts := Counts_onSuccess (counts cb)\<rparr>
           in if readyToTrip cb1 (counts cb1) then setState cb1 StateOpen t else cb1)
      | StateHalfOpen \<Rightarrow>
          (let cb1 = cb\<lparr>counts := Counts_onSuccess (counts cb)\<rparr>
           in if ConsecutiveSuccess (counts cb1) \<ge> maxRequests cb1
              then setState cb1 StateClosed t else cb1)
      | StateOpen \<Rightarrow> cb)"

definition onFail :: "CircuitBreaker \<Rightarrow> State \<Rightarrow> Time \<Rightarrow> CircuitBreaker" where
  "onFail cb currState t =
     (case currState of
        StateClosed \<Rightarrow> cb\<lparr>counts := Counts_onFail (counts cb)\<rparr>
      | StateHalfOpen \<Rightarrow> setState (cb\<lparr>counts := Counts_onFail (counts cb)\<rparr>) StateOpen t
      | StateOpen \<Rightarrow> cb)"

section \<open>Admission and outcome recording\<close>

text \<open>
  \<open>beforeRequest\<close> returns the breaker, the generation tag and the error (\<open>None\<close> is nil).
  \<open>t\<close> is the clock reading passed to \<open>currentState\<close>, \<open>now'\<close> the one \<open>currentState\<close> takes.
\<close>

definition beforeRequest :: "CircuitBreaker \<Rightarrow> Time \<Rightarrow> Time \<Rightarrow> CircuitBreaker \<times> int \<times> error option" where
  "beforeRequest cb t now' =
     (let cb1 = cb\<lparr>counts := Counts_onRequest (counts cb)\<rparr>;
          (cb2, currState, generation) = currentState cb1 t now'
      in if currState = StateOpen then (cb2, generation, Some ErrOpenState)
         else if currState = StateHalfOpen \<and> Requests (counts cb2) > maxRequests cb2
         then (cb2, generation, Some ErrTooManyRequests)
         else (cb2, generation, None))"

text \<open>
  \<open>afterRequest\<close> reads the clock twice itself (\<open>now\<close>, then \<open>t\<close> for \<open>currentState\<close>), and
  \<open>currentState\<close> once more (\<open>now'\<close>).
\<close>

definition afterRequest :: "CircuitBreaker \<Rightarrow> int \<Rightarrow> bool \<Rightarrow> Time \<Rightarrow> Time \<Rightarrow> Time \<Rightarrow> CircuitBreaker" where
  "afterRequest cb before isSuccess now t now' =
     (let (cb1, currState, generation) = currentState cb t now'
      in if generation \<noteq> before then cb1
         else if isSuccess then onSuccess cb1 currState now
         else onFail cb1 currState now)"

section \<open>Execute\<close>

text \<open>
  What a call of the wrapped operation does: it returns a result (\<open>None\<close> is a nil
  interface value) and an error, or it panics with a value. \<open>Execute\<close> ends in the same
  two ways.
\<close>

datatype ('r, 'p) outcome = Returned "'r option" "error option" | Panicked 'p

text \<open>
  \<open>Execute\<close> for one caller running alone: the admission check, the operation, and the
  recording of the outcome, with the five clock readings of the two locked sections.
  The deferred function acts only when the operation panics: it records with
  \<open>isSuccess = false\<close> and panics again with the same value.
\<close>

definition Execute ::
  "CircuitBreaker \<Rightarrow> (unit \<Rightarrow> ('r, 'p) outcome) \<Rightarrow> Time \<Rightarrow> Time \<Rightarrow> Time \<Rightarrow> Time \<Rightarrow> Time
     \<Rightarrow> CircuitBreaker \<times> ('r, 'p) outcome" where
  "Execute cb req tb tb' now ta ta' =
     (let (cb1, generation, err) = beforeRequest cb tb tb'
      in if err \<noteq> None then (cb1, Returned None err)
         else case req () of
                Panicked e \<Rightarrow> (afterRequest cb1 generation False now ta ta', Panicked e)
              | Returned res err \<Rightarrow>
                  (afterRequest cb1 generation (err \<noteq> None) now ta ta', Returned res err))"

section \<open>Sequences of locked sections\<close>

text \<open>
  Callers run concurrently, but every access to the breaker is one of the two locked
  sections, so what the breaker goes through is a sequence of them in some order:
  an admission check (\<open>beforeRequest\<close>, with its clock readings) or the recording of an
  outcome (\<open>afterRequest\<close>, with its tag, its flag and its clock readings).
\<close>

datatype event = Admission Time Time | Completion int bool Time Time Time

fun apply_event :: "CircuitBreaker \<Rightarrow> event \<Rightarrow> CircuitBreaker" where
  "apply_event cb (Admission t now') = fst (beforeRequest cb t now')"
| "apply_event cb (Completion before isSuccess now t now') =
     afterRequest cb before isSuccess now t now'"

text \<open>The errors returned by the admission checks of a sequence, in order.\<close>

fun admission_results :: "CircuitBreaker \<Rightarrow> event list \<Rightarrow> error option list" where
  "admission_results cb [] = []"
| "admission_results cb (Admission t now' # es) =
     snd (snd (beforeRequest cb t now')) # admission_results (apply_event cb (Admission t now')) es"
| "admission_results cb (Completion before isSuccess now t now' # es) =
     admission_results (apply_event cb (Completion before isSuccess now t now')) es"

fun count_admissions :: "event list \<Rightarrow> nat" where
  "count_admissions [] = 0"
| "count_admissions (Admission t now' # es) = Suc (count_admissions es)"
| "count_admissions (Completion before isSuccess now t now' # es) = count_admissions es"

text \<open>The breaker is in \<open>HalfOpen\<close> before the sequence and after each of its events.\<close>

fun remains_HalfOpen :: "CircuitBreaker \<Rightarrow> event list \<Rightarrow> bool" where
  "remains_HalfOpen cb [] \<longleftrightarrow> state cb = StateHalfOpen"
| "remains_HalfOpen cb (e # es) \<longleftrightarrow>
     state cb = StateHalfOpen \<and> remains_HalfOpen (apply_event cb e) es"

section \<open>Concrete breakers\<close>

text \<open>
  A breaker probing in \<open>HalfOpen\<close>, as the first admission check leaves one constructed
  with a timeout of 60 s and two trial calls; and a tripped one, as a recorded failure
  at time 3000 leaves it.
\<close>

definition probing :: CircuitBreaker where
  "probing =
     \<lparr>timeout = 60 * Second, maxRequests = 2, readyToTrip = defaultReadyToTrip,
      state = StateHalfOpen, generation = 1, counts = zero_Counts, expiry = zero_time\<rparr>"

definition tripped :: CircuitBreaker where
  "tripped =
     \<lparr>timeout = 60 * Second, maxRequests = 2, readyToTrip = defaultReadyToTrip,
      state = StateOpen, generation = 2, counts = zero_Counts,
      expiry = time_Add 3000 (60 * Second)\<rparr>"

section \<open>Basic facts\<close>

lemmas breaker_defs =
  Execute_def beforeRequest_def afterRequest_def currentState_def setState_def
  newGeneration_def onSuccess_def onFail_def NewCircuitBreaker_def refresh_def Let_def
  Counts_clear_def Counts_onRequest_def Counts_onSuccess_def Counts_onFail_def zero_Counts_def
  zero_time_def time_Before_def time_Add_def defaultTimeOut_def defaultMaxRequests_def
  Second_def probing_def tripped_def wrap_int_def

lemma probing_reached:
  "fst (beforeRequest
          (NewCircuitBreaker \<lparr>Timeout = 60 * Second, MaxRequests = 2, ReadyToTrip = None\<rparr> 1000)
          2000 2000) = probing"
  by (simp add: breaker_defs)

lemma tripped_reached: "afterRequest probing 1 False 3000 3000 3000 = tripped"
  by (simp add: breaker_defs)

lemma Counts_clear_zero: "Counts_clear (c::Counts) = zero_Counts"
  by (simp add: Counts_clear_def zero_Counts_def)

lemma setState_same: "setState cb (state cb) t = cb"
  by (simp add: setState_def)

lemma setState_other:
  "s \<noteq> state cb \<Longrightarrow>
   setState cb s t =
     cb\<lparr>state := s, counts := zero_Counts, generation := generation cb + 1,
        expiry := (if s = StateOpen then time_Add t (timeout cb) else zero_time)\<rparr>"
  by (simp add: setState_def newGeneration_def Counts_clear_zero Let_def)

lemma currentState_not_Closed:
  "state cb \<noteq> StateClosed \<Longrightarrow> currentState cb t now' = (cb, state cb, generation cb)"
  by (simp add: currentState_def)

lemma beforeRequest_Open:
  "state cb = StateOpen \<Longrightarrow>
   beforeRequest cb t now' =
     (cb\<lparr>counts := Counts_onRequest (counts cb)\<rparr>, generation cb, Some ErrOpenState)"
  by (simp add: beforeRequest_def currentState_def Let_def)

lemma beforeRequest_HalfOpen:
  "state cb = StateHalfOpen \<Longrightarrow>
   beforeRequest cb t now' =
     (cb\<lparr>counts := Counts_onRequest (counts cb)\<rparr>, generation cb,
      if wrap_int (Requests (counts cb) + 1) > maxRequests cb
      then Some ErrTooManyRequests else None)"
  by (simp add: beforeRequest_def currentState_def Let_def Counts_onRequest_def)

lemma wrap_int_in_range:
  "- 9223372036854775808 \<le> x \<Longrightarrow> x < 9223372036854775808 \<Longrightarrow> wrap_int x = x"
  by (simp add: wrap_int_def)

lemma NewCircuitBreaker_fields:
  "state (NewCircuitBreaker st t0) = StateClosed"
  "generation (NewCircuitBreaker st t0) = 0"
  "counts (NewCircuitBreaker st t0) = zero_Counts"
  "expiry (NewCircuitBreaker st t0) = zero_time"
  by (simp_all add: NewCircuitBreaker_def refresh_def Let_def Counts_clear_zero)

text \<open>
  Once the breaker is \<open>Open\<close> no locked section changes its state, whatever the clock
  says: \<open>currentState\<close> acts on \<open>Closed\<close> only, and neither outcome handler has an \<open>Open\<close>
  branch.
\<close>

lemma Open_is_kept: "state cb = StateOpen \<Longrightarrow> state (apply_event cb e) = StateOpen"
  by (cases e)
     (simp_all add: beforeRequest_Open afterRequest_def currentState_def onSuccess_def
        onFail_def)

text \<open>
  The tag an admission check hands out is the generation it leaves behind, and no locked
  section ever lowers the generation: a tag never exceeds the current generation.
\<close>

lemma beforeRequest_tag:
  "fst (snd (beforeRequest cb t now')) = generation (fst (beforeRequest cb t now'))"
  by (simp add: beforeRequest_def currentState_def Let_def)

lemma beforeRequest_fst:
  "fst (beforeRequest cb t now') =
     fst (currentState (cb\<lparr>counts := Counts_onRequest (counts cb)\<rparr>) t now')"
  by (simp add: beforeRequest_def currentState_def Let_def)

lemma setState_generation: "generation cb \<le> generation (setState cb s t)"
  by (cases "s = state cb") (simp_all add: setState_same setState_other)

lemma currentState_generation: "generation cb \<le> generation (fst (currentState cb t now'))"
  by (simp add: currentState_def Let_def setState_generation)

lemma onSuccess_generation: "generation cb \<le> generation (onSuccess cb s t)"
proof (cases s)
  case StateHalfOpen
  then show ?thesis
    using setState_generation [of "cb\<lparr>counts := Counts_onSuccess (counts cb)\<rparr>" StateClosed t]
    by (simp add: onSuccess_def Let_def)
next
  case StateOpen
  then show ?thesis by (simp add: onSuccess_def)
next
  case StateClosed
  then show ?thesis
    using setState_generation [of "cb\<lparr>counts := Counts_onSuccess (counts cb)\<rparr>" StateOpen t]
    by (simp add: onSuccess_def Let_def)
qed

lemma onFail_generation: "generation cb \<le> generation (onFail cb s t)"
proof (cases s)
  case StateHalfOpen
  then show ?thesis
    using setState_generation [of "cb\<lparr>counts := Counts_onFail (counts cb)\<rparr>" StateOpen t]
    by (simp add: onFail_def)
qed (simp_all add: onFail_def)

lemma apply_event_generation: "generation cb \<le> generation (apply_event cb e)"
proof (cases e)
  case (Admission t now')
  have "generation cb \<le> generation (fst (currentState (cb\<lparr>counts := Counts_onRequest (counts cb)\<rparr>) t now'))"
    using currentState_generation [of "cb\<lparr>counts := Counts_onRequest (counts cb)\<rparr>" t now'] by simp
  then show ?thesis using Admission
    by (simp add: beforeRequest_fst)
next
  case (Completion before isSuccess now t now')
  obtain cb1 s g where c: "currentState cb t now' = (cb1, s, g)"
    by (cases "currentState cb t now'")
  have 1: "generation cb \<le> generation cb1"
    using currentState_generation [of cb t now'] c by simp
  have "generation cb1 \<le> generation (afterRequest cb before isSuccess now t now')"
    using c onSuccess_generation [of cb1 s now] onFail_generation [of cb1 s now]
    by (simp add: afterRequest_def)
  then show ?thesis using 1 Completion by simp
qed

text \<open>
  So the tag of an admitted call is never newer than the generation found when its
  outcome is recorded, whatever happened in between: a tag that differs is an older one.
\<close>

lemma run_generation: "generation cb \<le> generation (foldl apply_event cb es)"
proof (induction es arbitrary: cb)
  case Nil
  then show ?case by simp
next
  case (Cons e es)
  have "generation cb \<le> generation (apply_event cb e)" by (rule apply_event_generation)
  also have "\<dots> \<le> generation (foldl apply_event (apply_event cb e) es)" by (rule Cons.IH)
  finally show ?case by simp
qed

lemma admitted_tag_never_newer:
  "fst (snd (beforeRequest cb t now')) \<le>
     generation (foldl apply_event (fst (beforeRequest cb t now')) es)"
  using run_generation [of "fst (beforeRequest cb t now')" es]
  by (simp add: beforeRequest_tag)

text \<open>
  Recording through \<open>afterRequest\<close> reaches the \<open>Closed\<close> branches only while the expiry
  is not before the clock reading; then a failure is recorded and nothing else happens.
  No admission check consults the trip predicate.
\<close>

lemma afterRequest_failure_in_Closed:
  assumes "state cb = StateClosed" and "\<not> time_Before (expiry cb) t"
  shows "afterRequest cb (generation cb) False now t now' =
           cb\<lparr>counts := Counts_onFail (counts cb)\<rparr>"
  using assms by (simp add: afterRequest_def currentState_def onFail_def)

lemma setState_ignores_readyToTrip:
  "setState (cb\<lparr>readyToTrip := p\<rparr>) s t = (setState cb s t)\<lparr>readyToTrip := p\<rparr>"
  by (simp add: setState_def newGeneration_def Let_def)

lemma beforeRequest_ignores_readyToTrip:
  "beforeRequest (cb\<lparr>readyToTrip := p\<rparr>) t now' =
     (case beforeRequest cb t now' of (cb', g, e) \<Rightarrow> (cb'\<lparr>readyToTrip := p\<rparr>, g, e))"
proof -
  let ?c = "cb\<lparr>counts := Counts_onRequest (counts cb)\<rparr>"
  have c: "(cb\<lparr>readyToTrip := p\<rparr>)\<lparr>counts := Counts_onRequest (counts (cb\<lparr>readyToTrip := p\<rparr>))\<rparr>
             = ?c\<lparr>readyToTrip := p\<rparr>"
    by simp
  have s: "setState (?c\<lparr>readyToTrip := p\<rparr>) StateHalfOpen now' =
          (setState ?c StateHalfOpen now')\<lparr>readyToTrip := p\<rparr>"
    by (rule setState_ignores_readyToTrip)
  show ?thesis
  proof (cases "state cb = StateClosed")
    case True
    note closed = this
    show ?thesis
    proof (cases "time_Before (expiry cb) t")
      case True
      show ?thesis
        unfolding beforeRequest_def currentState_def c
        using closed True by (simp add: s Let_def del: CircuitBreaker.update_convs)
    next
      case False
      show ?thesis
        unfolding beforeRequest_def currentState_def c
        using closed False by (simp add: Let_def)
    qed
  next
    case False
    show ?thesis
      unfolding beforeRequest_def currentState_def c
      using False by (simp add: Let_def)
  qed
qed

section \<open>Execute and the classification of outcomes\<close>

text \<open>
  C1. The claim: for a call that \<open>Execute\<close> admits, a nil error of the operation is
  recorded as a success and a non-nil error as a failure, the error being passed through.
  \<open>Execute\<close> hands \<open>err != nil\<close> to the parameter \<open>isSuccess\<close> of \<open>afterRequest\<close>, so
  the recording is the other way round. On a breaker constructed with the defaults, a
  first call whose operation returns a nil error is admitted, returns the operation's
  result, and is recorded by \<open>onFail\<close>: the breaker ends in \<open>Open\<close>, generation 2. The
  same call with an operation that returns an error returns that error unchanged and is
  recorded by \<open>onSuccess\<close>: one success, no failure.
\<close>

theorem Execute_records_nil_error_as_failure:
  "let cb = NewCircuitBreaker \<lparr>Timeout = 0, MaxRequests = 0, ReadyToTrip = None\<rparr> 1000;
       ok = (\<lambda>_. Returned (Some ''body'') None) :: unit \<Rightarrow> (string, unit) outcome;
       ko = (\<lambda>_. Returned None (Some (OperationError ''boom''))) :: unit \<Rightarrow> (string, unit) outcome;
       (cb_ok, r_ok) = Execute cb ok 2000 2000 3000 3000 3000;
       (cb_ko, r_ko) = Execute cb ko 2000 2000 3000 3000 3000
   in r_ok = Returned (Some ''body'') None \<and>
      state cb_ok = StateOpen \<and> generation cb_ok = 2 \<and>
      r_ko = Returned None (Some (OperationError ''boom'')) \<and>
      state cb_ko = StateHalfOpen \<and> generation cb_ko = 1 \<and>
      TotalSuccess (counts cb_ko) = 1 \<and> ConsecutiveSuccess (counts cb_ko) = 1 \<and>
      TotalFail (counts cb_ko) = 0 \<and> ConsecutiveFail (counts cb_ko) = 0"
  by (simp add: breaker_defs)

text \<open>
  What holds for every admitted call: the operation's result and error are returned as
  they are, and the flag recorded is \<open>err \<noteq> nil\<close>.
\<close>

lemma Execute_admitted:
  assumes "beforeRequest cb tb tb' = (cb1, g, None)" and "req () = Returned res err"
  shows "Execute cb req tb tb' now ta ta' =
           (afterRequest cb1 g (err \<noteq> None) now ta ta', Returned res err)"
  using assms by (simp add: Execute_def)

lemma Execute_rejected:
  assumes "beforeRequest cb tb tb' = (cb1, g, Some e)"
  shows "Execute cb req tb tb' now ta ta' = (cb1, Returned None (Some e))"
  using assms by (simp add: Execute_def)

lemma Execute_panicked:
  assumes "beforeRequest cb tb tb' = (cb1, g, None)" and "req () = Panicked v"
  shows "Execute cb req tb tb' now ta ta' =
           (afterRequest cb1 g False now ta ta', Panicked v)"
  using assms by (simp add: Execute_def)

section \<open>The Open state and its timeout\<close>

text \<open>
  C2. The claim: after the breaker enters \<open>Open\<close> at time T with timeout D, admission
  checks before T + D are rejected with the open-state error, and the first check at or
  after T + D observes \<open>HalfOpen\<close>.
  A breaker constructed with the defaults admits its first call in \<open>HalfOpen\<close>; the
  failure recorded at T = 3000 trips it, with expiry T + 60 s. The admission check at
  exactly T + 60 s, and the one a second later, are both rejected with \<open>ErrOpenState\<close>
  and leave the breaker \<open>Open\<close>: \<open>currentState\<close> looks at the expiry only when the state
  is \<open>Closed\<close>.
\<close>

theorem Open_outlasts_its_timeout:
  "let cb0 = NewCircuitBreaker \<lparr>Timeout = 0, MaxRequests = 0, ReadyToTrip = None\<rparr> 1000;
       (cb1, g1, e1) = beforeRequest cb0 2000 2000;
       cb2 = afterRequest cb1 g1 False 3000 3000 3000;
       (cb3, g3, e3) = beforeRequest cb2 (3000 + 60 * Second) (3000 + 60 * Second);
       (cb4, g4, e4) = beforeRequest cb3 (3000 + 61 * Second) (3000 + 61 * Second)
   in e1 = None \<and> state cb1 = StateHalfOpen \<and>
      state cb2 = StateOpen \<and> timeout cb2 = 60 * Second \<and>
      expiry cb2 = time_Add 3000 (timeout cb2) \<and>
      e3 = Some ErrOpenState \<and> state cb3 = StateOpen \<and>
      e4 = Some ErrOpenState \<and> state cb4 = StateOpen"
  by (simp add: breaker_defs)

section \<open>Defaults of the constructor\<close>

text \<open>
  C3. The claim: each option defaults on its own; in particular the trial-call count is
  5 whenever no positive count is given.
  The constructor decides the trial-call count by testing \<open>Timeout\<close> a second time:
  with a timeout of 30 s and no count, the count is 0 and not 5; a negative count is
  kept; and with no timeout, a given count of 3 is replaced by 5.
\<close>

theorem NewCircuitBreaker_maxRequests_follows_Timeout:
  "maxRequests (NewCircuitBreaker
      \<lparr>Timeout = 30 * Second, MaxRequests = 0, ReadyToTrip = None\<rparr> 1000) = 0 \<and>
   maxRequests (NewCircuitBreaker
      \<lparr>Timeout = 30 * Second, MaxRequests = - 4, ReadyToTrip = None\<rparr> 1000) = - 4 \<and>
   maxRequests (NewCircuitBreaker
      \<lparr>Timeout = 0, MaxRequests = 3, ReadyToTrip = None\<rparr> 1000) = 5"
  by (simp add: breaker_defs)

text \<open>The other two options do default on their own.\<close>

lemma NewCircuitBreaker_timeout:
  "timeout (NewCircuitBreaker st t0) = (if Timeout st \<le> 0 then 60 * Second else Timeout st)"
  by (simp add: breaker_defs)

lemma NewCircuitBreaker_readyToTrip:
  "readyToTrip (NewCircuitBreaker st t0) =
     (case ReadyToTrip st of None \<Rightarrow> (\<lambda>c. ConsecutiveFail c \<ge> 5) | Some f \<Rightarrow> f)"
  by (auto simp add: breaker_defs defaultReadyToTrip_def split: option.splits)

lemma NewCircuitBreaker_maxRequests:
  "maxRequests (NewCircuitBreaker st t0) = (if Timeout st \<le> 0 then 5 else MaxRequests st)"
  by (simp add: breaker_defs)

section \<open>Transitions: expiry, generation, counts\<close>

text \<open>
  C4, as the code has it. A transition that enters \<open>Open\<close> sets the expiry to the time of
  the transition plus the configured timeout; a transition that enters \<open>HalfOpen\<close> or
  \<open>Closed\<close> clears the expiry to the zero value.
\<close>

theorem setState_expiry:
  "s \<noteq> state cb \<Longrightarrow>
   state (setState cb s t) = s \<and>
   expiry (setState cb s t) =
     (case s of
        StateHalfOpen \<Rightarrow> zero_time
      | StateOpen \<Rightarrow> time_Add t (timeout cb)
      | StateClosed \<Rightarrow> zero_time)"
  by (cases s) (simp_all add: setState_other)

theorem setState_expiry_witness:
  "StateOpen \<noteq> state probing \<and>
   state (setState probing StateOpen 7000) = StateOpen \<and>
   expiry (setState probing StateOpen 7000) = 7000 + 60 * Second \<and>
   StateClosed \<noteq> state probing \<and>
   state (setState probing StateClosed 7000) = StateClosed \<and>
   expiry (setState probing StateClosed 7000) = 0 \<and>
   StateHalfOpen \<noteq> state tripped \<and>
   state (setState tripped StateHalfOpen 7000) = StateHalfOpen \<and>
   expiry (setState tripped StateHalfOpen 7000) = 0"
proof -
  have 1: "StateOpen \<noteq> state probing" and 2: "StateClosed \<noteq> state probing"
    and 3: "StateHalfOpen \<noteq> state tripped"
    by (simp_all add: probing_def tripped_def)
  show ?thesis
    using 1 2 3 setState_expiry [OF 1, of 7000] setState_expiry [OF 2, of 7000]
      setState_expiry [OF 3, of 7000]
    by (simp add: probing_def tripped_def time_Add_def zero_time_def)
qed

text \<open>
  C4 as claimed fails where it says that every return to \<open>Closed\<close> sets the expiry to now
  plus the timeout: the probing breaker returns to \<open>Closed\<close> at time 7000, by the
  transition itself or by its second recorded success, with the expiry cleared.
\<close>

theorem return_to_Closed_clears_expiry:
  "state (setState probing StateClosed 7000) = StateClosed \<and>
   expiry (setState probing StateClosed 7000) = zero_time \<and>
   expiry (setState probing StateClosed 7000) \<noteq> time_Add 7000 (timeout probing) \<and>
   state (afterRequest (afterRequest probing 1 True 6000 6000 6000) 1 True 7000 7000 7000)
     = StateClosed \<and>
   expiry (afterRequest (afterRequest probing 1 True 6000 6000 6000) 1 True 7000 7000 7000)
     \<noteq> time_Add 7000 (timeout probing)"
  by (simp add: breaker_defs)



section \<open>Recording outcomes\<close>





text \<open>
  C10. On an \<open>Open\<close> breaker, \<open>afterRequest\<close> with the current generation as its tag
  changes nothing, for either flag: \<open>currentState\<close> leaves \<open>Open\<close> alone and neither
  handler has an \<open>Open\<close> branch.
\<close>

theorem afterRequest_in_Open_is_noop:
  "state cb = StateOpen \<Longrightarrow> afterRequest cb (generation cb) isSuccess now t now' = cb"
  by (simp add: afterRequest_def currentState_def onSuccess_def onFail_def)

theorem afterRequest_in_Open_is_noop_witness:
  "state tripped = StateOpen \<and>
   afterRequest tripped 2 True 9000 9000 9000 = tripped \<and>
   afterRequest tripped 2 False (3000 + 61 * Second) (3000 + 61 * Second) (3000 + 61 * Second)
     = tripped"
proof -
  have 1: "state tripped = StateOpen" and 2: "generation tripped = 2"
    by (simp_all add: tripped_def)
  show ?thesis
    using 1 2 afterRequest_in_Open_is_noop [OF 1, of True 9000 9000 9000]
      afterRequest_in_Open_is_noop [OF 1, of False "3000 + 61 * Second" "3000 + 61 * Second"
        "3000 + 61 * Second"]
    by simp
qed

section \<open>A fresh breaker\<close>

text \<open>
  C9. A breaker just constructed is \<open>Closed\<close> with generation 0, zero counts and the zero
  time as expiry. Its first admission check, at any clock reading after the zero time,
  moves it to \<open>HalfOpen\<close>: the check returns tag 1 and leaves generation 1, zero counts
  (the request just counted is cleared with the rest) and the zero expiry; it admits the
  call when the breaker's \<open>maxRequests\<close> is not negative.
\<close>

theorem fresh_breaker_first_admission:
  "state (NewCircuitBreaker st t0) = StateClosed \<and>
   generation (NewCircuitBreaker st t0) = 0 \<and>
   counts (NewCircuitBreaker st t0) = zero_Counts \<and>
   expiry (NewCircuitBreaker st t0) = zero_time \<and>
   (time_Before zero_time t \<longrightarrow>
     (case beforeRequest (NewCircuitBreaker st t0) t now' of
        (cb', g, err) \<Rightarrow>
          state cb' = StateHalfOpen \<and> g = 1 \<and> generation cb' = 1 \<and>
          counts cb' = zero_Counts \<and> expiry cb' = zero_time \<and>
          (0 \<le> maxRequests (NewCircuitBreaker st t0) \<longrightarrow> err = None)))"
  by (simp add: NewCircuitBreaker_fields beforeRequest_def currentState_def setState_other
      Let_def zero_Counts_def)

theorem fresh_breaker_first_admission_witness:
  "time_Before zero_time 2000 \<and>
   0 \<le> maxRequests (NewCircuitBreaker
          \<lparr>Timeout = 0, MaxRequests = 0, ReadyToTrip = None\<rparr> 1000) \<and>
   state (fst (beforeRequest (NewCircuitBreaker
          \<lparr>Timeout = 0, MaxRequests = 0, ReadyToTrip = None\<rparr> 1000) 2000 2000))
     = StateHalfOpen \<and>
   generation (fst (beforeRequest (NewCircuitBreaker
          \<lparr>Timeout = 0, MaxRequests = 0, ReadyToTrip = None\<rparr> 1000) 2000 2000)) = 1 \<and>
   counts (fst (beforeRequest (NewCircuitBreaker
          \<lparr>Timeout = 0, MaxRequests = 0, ReadyToTrip = None\<rparr> 1000) 2000 2000))
     = zero_Counts \<and>
   snd (beforeRequest (NewCircuitBreaker
          \<lparr>Timeout = 0, MaxRequests = 0, ReadyToTrip = None\<rparr> 1000) 2000 2000)
     = (1, None)"
proof -
  let ?cb = "NewCircuitBreaker \<lparr>Timeout = 0, MaxRequests = 0, ReadyToTrip = None\<rparr> 1000"
  have 1: "time_Before zero_time 2000"
    by (simp add: time_Before_def zero_time_def)
  have 2: "0 \<le> maxRequests ?cb"
    by (simp add: NewCircuitBreaker_maxRequests)
  show ?thesis
    using 1 2 fresh_breaker_first_admission [of "\<lparr>Timeout = 0, MaxRequests = 0, ReadyToTrip = None\<rparr>"
      1000 2000 2000]
    by (auto split: prod.splits)
qed

section \<open>Trial calls in HalfOpen\<close>

text \<open>
  While the breaker stays in \<open>HalfOpen\<close>, recording an outcome changes neither the
  request counter nor the configured maximum.
\<close>

lemma afterRequest_stays_HalfOpen:
  assumes "state cb = StateHalfOpen"
    and "state (afterRequest cb before isSuccess now t now') = StateHalfOpen"
  shows "Requests (counts (afterRequest cb before isSuccess now t now')) = Requests (counts cb) \<and>
         maxRequests (afterRequest cb before isSuccess now t now') = maxRequests cb"
  using assms
  by (auto simp add: afterRequest_def currentState_def onSuccess_def onFail_def setState_other
      Counts_onSuccess_def Counts_onFail_def Let_def split: if_splits)

lemma admitted_then_rejected_step:
  "(if r + 1 > m then Some ErrTooManyRequests else None) #
     (replicate (min k (nat (m - (r + 1)))) None @
      replicate (k - nat (m - (r + 1))) (Some ErrTooManyRequests))
   = replicate (min (Suc k) (nat (m - r))) None @
     replicate (Suc k - nat (m - r)) (Some ErrTooManyRequests)"
proof (cases "r + 1 > m")
  case True
  then have "nat (m - r) = 0" "nat (m - (r + 1)) = 0" by simp_all
  then show ?thesis using True by simp
next
  case False
  then have "nat (m - r) = Suc (nat (m - (r + 1)))" by simp
  then show ?thesis using False by (simp add: Suc_diff_le)
qed

text \<open>
  From any request count that is not negative, and for a sequence short enough for the
  counter not to wrap: the checks are admitted as long as the count stays within the
  maximum, and rejected from then on.
\<close>

lemma admission_results_from:
  assumes "remains_HalfOpen cb es"
    and "0 \<le> Requests (counts cb)"
    and "Requests (counts cb) + int (count_admissions es) < 9223372036854775808"
  shows "admission_results cb es =
           replicate (min (count_admissions es) (nat (maxRequests cb - Requests (counts cb)))) None
         @ replicate (count_admissions es - nat (maxRequests cb - Requests (counts cb)))
             (Some ErrTooManyRequests)"
  using assms
proof (induction es arbitrary: cb)
  case Nil
  then show ?case by simp
next
  case (Cons e es)
  then have h: "state cb = StateHalfOpen" and r: "remains_HalfOpen (apply_event cb e) es"
    by simp_all
  show ?case
  proof (cases e)
    case (Admission t now')
    let ?cb = "cb\<lparr>counts := Counts_onRequest (counts cb)\<rparr>"
    let ?m = "maxRequests cb" and ?r = "Requests (counts cb)" and ?k = "count_admissions es"
    have n: "?r + 1 + int ?k < 9223372036854775808"
      using Cons.prems(3) Admission by simp
    have w: "wrap_int (?r + 1) = ?r + 1"
      using Cons.prems(2) n by (intro wrap_int_in_range) simp_all
    have b: "beforeRequest cb t now' =
               (?cb, generation cb, if ?r + 1 > ?m then Some ErrTooManyRequests else None)"
      using beforeRequest_HalfOpen [OF h, of t now'] w by simp
    have a: "apply_event cb e = ?cb" using Admission b by simp
    have c: "Requests (counts ?cb) = ?r + 1" "maxRequests ?cb = ?m"
      using w by (simp_all add: Counts_onRequest_def)
    have ih: "admission_results ?cb es =
           replicate (min ?k (nat (?m - (?r + 1)))) None
         @ replicate (?k - nat (?m - (?r + 1))) (Some ErrTooManyRequests)"
      using Cons.IH [of ?cb] r a c n Cons.prems(2) by simp
    have "admission_results cb (e # es) =
            (if ?r + 1 > ?m then Some ErrTooManyRequests else None) # admission_results ?cb es"
      using Admission b by simp
    also have "\<dots> = (if ?r + 1 > ?m then Some ErrTooManyRequests else None)
              # (replicate (min ?k (nat (?m - (?r + 1)))) None
                 @ replicate (?k - nat (?m - (?r + 1))) (Some ErrTooManyRequests))"
      using ih by simp
    also have "\<dots> = replicate (min (Suc ?k) (nat (?m - ?r))) None
         @ replicate (Suc ?k - nat (?m - ?r)) (Some ErrTooManyRequests)"
      by (rule admitted_then_rejected_step)
    finally show ?thesis using Admission by simp
  next
    case (Completion before isSuccess now t now')
    let ?cb = "afterRequest cb before isSuccess now t now'"
    have a: "apply_event cb e = ?cb" using Completion by simp
    have s: "state ?cb = StateHalfOpen" using r a by (cases es) simp_all
    have k: "Requests (counts ?cb) = Requests (counts cb)" "maxRequests ?cb = maxRequests cb"
      using afterRequest_stays_HalfOpen [OF h s] by simp_all
    show ?thesis using Cons.IH [of ?cb] r a k Completion Cons.prems(2,3) by simp
  qed
qed

lemma length_admission_results: "length (admission_results cb es) = count_admissions es"
  by (induction cb es rule: admission_results.induct) simp_all

text \<open>
  On a breaker that is in \<open>HalfOpen\<close> with its request counter at 0, so after the access
  that made the transition, the next \<open>maxRequests\<close> admission checks are admitted and the
  later ones rejected, as long as the breaker stays in \<open>HalfOpen\<close> and the counter does
  not wrap.
\<close>

lemma HalfOpen_after_entry:
  assumes "remains_HalfOpen cb es" and "Requests (counts cb) = 0" and "0 \<le> maxRequests cb"
    and "int (count_admissions es) < 9223372036854775808"
  shows "admission_results cb es =
           replicate (min (count_admissions es) (nat (maxRequests cb))) None
         @ replicate (count_admissions es - nat (maxRequests cb)) (Some ErrTooManyRequests)"
  using admission_results_from [OF assms(1)] assms(2,4) by simp

text \<open>
  When the counter stands at the largest \<open>int\<close>, the next check wraps it to the smallest
  one, which is within every maximum: the call is admitted again.
\<close>

lemma Requests_wraps_at_MaxInt:
  "snd (snd (beforeRequest
      (probing\<lparr>counts := zero_Counts\<lparr>Requests := 9223372036854775807\<rparr>\<rparr>) 2000 2000)) = None \<and>
   Requests (counts (fst (beforeRequest
      (probing\<lparr>counts := zero_Counts\<lparr>Requests := 9223372036854775807\<rparr>\<rparr>) 2000 2000)))
     = - 9223372036854775808"
  by (simp add: breaker_defs)

text \<open>
  C6. The claim: while the breaker is in \<open>HalfOpen\<close>, exactly \<open>maxRequests\<close> calls are
  admitted and every later admission check is rejected with \<open>ErrTooManyRequests\<close>.
  \<open>beforeRequest\<close> counts the request before \<open>currentState\<close> makes the transition to
  \<open>HalfOpen\<close>, and the transition clears the counts: the check that enters \<open>HalfOpen\<close> is
  admitted as a \<open>HalfOpen\<close> trial, with the tag of the new generation, and is not counted.
  A breaker constructed with a timeout of 60 s and \<open>MaxRequests\<close> 2 admits its first
  three calls, all of them observed in \<open>HalfOpen\<close> under generation 1, and rejects the
  fourth.
\<close>

theorem HalfOpen_admits_one_more_than_maxRequests:
  "let cb = NewCircuitBreaker
              \<lparr>Timeout = 60 * Second, MaxRequests = 2, ReadyToTrip = None\<rparr> 1000;
       (cb1, g1, e1) = beforeRequest cb 2000 2000;
       (cb2, g2, e2) = beforeRequest cb1 2100 2100;
       (cb3, g3, e3) = beforeRequest cb2 2200 2200;
       (cb4, g4, e4) = beforeRequest cb3 2300 2300
   in maxRequests cb = 2 \<and>
      state cb1 = StateHalfOpen \<and> g1 = 1 \<and> e1 = None \<and> Requests (counts cb1) = 0 \<and>
      state cb2 = StateHalfOpen \<and> g2 = 1 \<and> e2 = None \<and> Requests (counts cb2) = 1 \<and>
      state cb3 = StateHalfOpen \<and> g3 = 1 \<and> e3 = None \<and> Requests (counts cb3) = 2 \<and>
      state cb4 = StateHalfOpen \<and> g4 = 1 \<and> e4 = Some ErrTooManyRequests \<and>
      admission_results cb
        [Admission 2000 2000, Admission 2100 2100, Admission 2200 2200, Admission 2300 2300]
        = [None, None, None, Some ErrTooManyRequests]"
proof -
  let ?cb = "NewCircuitBreaker
              \<lparr>Timeout = 60 * Second, MaxRequests = 2, ReadyToTrip = None\<rparr> 1000"
  let ?p1 = "probing\<lparr>counts := zero_Counts\<lparr>Requests := 1\<rparr>\<rparr>"
  let ?p2 = "probing\<lparr>counts := zero_Counts\<lparr>Requests := 2\<rparr>\<rparr>"
  let ?p3 = "probing\<lparr>counts := zero_Counts\<lparr>Requests := 3\<rparr>\<rparr>"
  have m: "maxRequests ?cb = 2"
    by (simp add: NewCircuitBreaker_def refresh_def Let_def Second_def)
  have 1: "beforeRequest ?cb 2000 2000 = (probing, 1, None)"
    by (simp add: breaker_defs)
  have 2: "beforeRequest probing 2100 2100 = (?p1, 1, None)"
    by (simp add: breaker_defs)
  have 3: "beforeRequest ?p1 2200 2200 = (?p2, 1, None)"
    by (simp add: breaker_defs)
  have 4: "beforeRequest ?p2 2300 2300 = (?p3, 1, Some ErrTooManyRequests)"
    by (simp add: breaker_defs)
  have p: "state probing = StateHalfOpen" "Requests (counts probing) = 0"
    by (simp_all add: probing_def zero_Counts_def)
  show ?thesis
    by (simp add: m 1 2 3 4 p)
qed

end
